theory Spec2Isabelle
  imports Main
begin

section \<open>The authorization decision pipeline of app-policy (package server)\<close>

text \<open>
  The theory embeds \<^verbatim>\<open>match.go\<close> and the \<^verbatim>\<open>Check\<close> handler of
  \<^verbatim>\<open>server.go\<close>. Go strings are byte sequences and are modelled as \<open>string\<close>
  (a list of 8-bit characters). A pointer that may be nil is an \<open>option\<close>. A Go
  \<^verbatim>\<open>error\<close> value is a \<open>go_error\<close>; a run-time panic is a value of type
  \<open>panic\<close>, returned on the left of a sum, so that "does not panic" is a statement
  about the result.
\<close>

subsection \<open>Errors, panics and the diagnostic log\<close>

datatype go_error = Errorf string

datatype panic = NilPointerDereference | IndexOutOfRange nat nat

datatype level = DebugLevel | InfoLevel | WarnLevel | ErrorLevel

type_synonym entry = "level \<times> string"

subsection \<open>The part of Go's regexp package that the identity pattern uses\<close>

text \<open>
  A compiled expression is a list of instructions, as in Go's \<^verbatim>\<open>regexp/syntax.Prog\<close>:
  \<open>Bol\<close> and \<open>Eol\<close> are the empty-width assertions of \<^verbatim>\<open>^\<close> and \<^verbatim>\<open>$\<close> (begin and end
  of text, no multi-line flag), \<open>Chr c\<close> consumes the byte \<open>c\<close>, \<open>NotChrPlus c\<close> is the
  greedy repetition \<^verbatim>\<open>[^c]+\<close>, and \<open>Cap n\<close> stores the current position in capture slot
  \<open>n\<close> (slots \<open>2g\<close> and \<open>2g+1\<close> delimit group \<open>g\<close>; group 0 is the whole match).

  Go matches runes, not bytes. For a class \<^verbatim>\<open>[^c]\<close> with an ASCII \<open>c\<close> the two agree: the
  class accepts every rune but \<open>c\<close> (newline included, and the replacement rune that
  stands for a byte of invalid UTF-8), and no byte of a multi-byte rune equals an ASCII
  byte, so a run of runes other than \<open>c\<close> is a run of bytes other than \<open>c\<close>.
\<close>

datatype inst = Bol | Eol | Chr char | NotChrPlus char | Cap nat

record Regexp =
  prog :: "inst list"
  numSubexp :: nat

definition meta_chars :: "char set" where
  "meta_chars = set (CHR 0x5C # ''.+*?()|[]{}^$'')"

definition emit :: "inst \<Rightarrow> go_error + inst list \<times> nat \<Rightarrow> go_error + inst list \<times> nat" where
  "emit i r = (case r of Inl e \<Rightarrow> Inl e | Inr (is, n) \<Rightarrow> Inr (i # is, n))"

text \<open>
  \<open>compile_from p g opened\<close> translates the rest \<open>p\<close> of a pattern; \<open>g\<close> is the number of
  groups opened so far and \<open>opened\<close> the stack of groups not yet closed. Syntax outside
  the fragment above is reported as an error.
\<close>

fun compile_from :: "string \<Rightarrow> nat \<Rightarrow> nat list \<Rightarrow> go_error + inst list \<times> nat" where
  "compile_from [] g opened =
     (if opened = [] then Inr ([], g) else Inl (Errorf ''missing closing )''))"
| "compile_from (c # r) g opened =
     (if c = CHR ''^'' then emit Bol (compile_from r g opened)
      else if c = CHR ''$'' then emit Eol (compile_from r g opened)
      else if c = CHR ''('' then emit (Cap (2 * Suc g)) (compile_from r (Suc g) (Suc g # opened))
      else if c = CHR '')'' then
        (case opened of
           [] \<Rightarrow> Inl (Errorf ''unexpected )'')
         | k # ks \<Rightarrow> emit (Cap (2 * k + 1)) (compile_from r g ks))
      else if c = CHR ''['' then
        (case r of
           a # x # b # q # r' \<Rightarrow>
             if a = CHR ''^'' \<and> x \<notin> meta_chars \<and> b = CHR '']'' \<and> q = CHR ''+''
             then emit (NotChrPlus x) (compile_from r' g opened)
             else Inl (Errorf ''unsupported character class'')
         | _ \<Rightarrow> Inl (Errorf ''missing closing ]''))
      else if c \<in> meta_chars then Inl (Errorf ''unsupported operator'')
      else emit (Chr c) (compile_from r g opened))"

definition Compile :: "string \<Rightarrow> Regexp option \<times> go_error option" where
  "Compile expr =
     (case compile_from expr 0 [] of
        Inl e \<Rightarrow> (None, Some e)
      | Inr (is, n) \<Rightarrow> (Some \<lparr>prog = is, numSubexp = n\<rparr>, None))"

fun first_some :: "'a option list \<Rightarrow> 'a option" where
  "first_some [] = None"
| "first_some (x # xs) = (case x of Some y \<Rightarrow> Some y | None \<Rightarrow> first_some xs)"

text \<open>
  The backtracking matcher: \<open>pos\<close> is the number of bytes consumed, \<open>rest\<close> the input
  still to read and \<open>cap\<close> the capture slots. A repetition tries its longest run first
  and gives bytes back one at a time (leftmost-first, greedy), as Go's matcher prefers.
\<close>

fun backtrack :: "inst list \<Rightarrow> nat \<Rightarrow> string \<Rightarrow> (nat \<rightharpoonup> nat) \<Rightarrow> (nat \<rightharpoonup> nat) option" where
  "backtrack [] pos rest cap = Some (cap(1 \<mapsto> pos))"
| "backtrack (Bol # is) pos rest cap =
     (if pos = 0 then backtrack is pos rest cap else None)"
| "backtrack (Eol # is) pos rest cap =
     (if rest = [] then backtrack is pos rest cap else None)"
| "backtrack (Chr c # is) pos rest cap =
     (case rest of
        [] \<Rightarrow> None
      | x # xs \<Rightarrow> if x = c then backtrack is (Suc pos) xs cap else None)"
| "backtrack (NotChrPlus c # is) pos rest cap =
     first_some (map (\<lambda>k. backtrack is (pos + k) (drop k rest) cap)
                     (rev [1..<Suc (length (takeWhile (\<lambda>x. x \<noteq> c) rest))]))"
| "backtrack (Cap n # is) pos rest cap = backtrack is pos rest (cap(n \<mapsto> pos))"

definition group :: "string \<Rightarrow> (nat \<rightharpoonup> nat) \<Rightarrow> nat \<Rightarrow> string" where
  "group text cap g =
     (case (cap (2 * g), cap (2 * g + 1)) of
        (Some i, Some j) \<Rightarrow> take (j - i) (drop i text)
      | _ \<Rightarrow> [])"

text \<open>
  \<^verbatim>\<open>FindStringSubmatch\<close>: the leftmost match, searched from every start position;
  \<open>None\<close> is Go's nil slice, otherwise the list holds the whole match followed by the
  text of each group.
\<close>

definition FindStringSubmatch :: "Regexp \<Rightarrow> string \<Rightarrow> string list option" where
  "FindStringSubmatch re text =
     (case first_some (map (\<lambda>i. backtrack (prog re) i (drop i text) [0 \<mapsto> i])
                           [0..<Suc (length text)]) of
        None \<Rightarrow> None
      | Some cap \<Rightarrow> Some (map (group text cap) [0..<Suc (numSubexp re)]))"

text \<open>Indexing a slice panics out of range.\<close>

definition index :: "'a list \<Rightarrow> nat \<Rightarrow> panic + 'a" where
  "index xs i = (if i < length xs then Inr (xs ! i) else Inl (IndexOutOfRange i (length xs)))"

subsection \<open>The data model\<close>

text \<open>
  The policy types of \<^verbatim>\<open>libcalico-go/lib/apis/v3\<close>, with the fields the matchers read:
  a rule's \<^verbatim>\<open>Source\<close> entity rule and its optional \<^verbatim>\<open>HTTP\<close> rule.
\<close>

record ServiceAccountMatch =
  Names :: "string list"
  Selector :: string

record EntityRule =
  ServiceAccounts :: "ServiceAccountMatch option"

record HTTPRule =
  Methods :: "string list"

record Rule =
  Source :: EntityRule
  HTTP :: "HTTPRule option"

text \<open>
  The request types of Envoy's \<^verbatim>\<open>api/auth\<close>. Every message is reached through a
  pointer, and the generated getters accept a nil receiver and return the zero value.
\<close>

record AttributeContext_HTTPRequest =
  Method :: string

record AttributeContext_Request =
  Http :: "AttributeContext_HTTPRequest option"

record AttributeContext_Peer =
  Principal :: string
  Labels :: "string \<rightharpoonup> string"

record AttributeContext =
  Attr_Source :: "AttributeContext_Peer option"
  Attr_Request :: "AttributeContext_Request option"

record CheckRequest =
  Attributes :: "AttributeContext option"

definition GetAttributes :: "CheckRequest option \<Rightarrow> AttributeContext option" where
  "GetAttributes req = (case req of None \<Rightarrow> None | Some m \<Rightarrow> Attributes m)"

definition GetSource :: "AttributeContext option \<Rightarrow> AttributeContext_Peer option" where
  "GetSource attr = (case attr of None \<Rightarrow> None | Some m \<Rightarrow> Attr_Source m)"

definition GetRequest :: "AttributeContext option \<Rightarrow> AttributeContext_Request option" where
  "GetRequest attr = (case attr of None \<Rightarrow> None | Some m \<Rightarrow> Attr_Request m)"

definition GetHttp :: "AttributeContext_Request option \<Rightarrow> AttributeContext_HTTPRequest option" where
  "GetHttp req = (case req of None \<Rightarrow> None | Some m \<Rightarrow> Http m)"

definition GetMethod :: "AttributeContext_HTTPRequest option \<Rightarrow> string" where
  "GetMethod req = (case req of None \<Rightarrow> [] | Some m \<Rightarrow> Method m)"

definition GetPrincipal :: "AttributeContext_Peer option \<Rightarrow> string" where
  "GetPrincipal peer = (case peer of None \<Rightarrow> [] | Some m \<Rightarrow> Principal m)"

definition GetLabels :: "AttributeContext_Peer option \<Rightarrow> (string \<rightharpoonup> string)" where
  "GetLabels peer = (case peer of None \<Rightarrow> Map.empty | Some m \<Rightarrow> Labels m)"

text \<open>
  The response carries a pointer to a \<^verbatim>\<open>status.Status\<close>, whose code is an int32 looked up
  in the table \<^verbatim>\<open>code.Code_value\<close> of \<^verbatim>\<open>googleapis/rpc/code\<close>. A Go map yields the
  zero value for a missing key.
\<close>

record Status =
  Code :: int

record CheckResponse =
  Resp_Status :: "Status option"

definition Code_value :: "string \<rightharpoonup> int" where
  "Code_value = map_of
     [(''OK'', 0), (''CANCELLED'', 1), (''UNKNOWN'', 2), (''INVALID_ARGUMENT'', 3),
      (''DEADLINE_EXCEEDED'', 4), (''NOT_FOUND'', 5), (''ALREADY_EXISTS'', 6),
      (''PERMISSION_DENIED'', 7), (''UNAUTHENTICATED'', 16), (''RESOURCE_EXHAUSTED'', 8),
      (''FAILED_PRECONDITION'', 9), (''ABORTED'', 10), (''OUT_OF_RANGE'', 11),
      (''UNIMPLEMENTED'', 12), (''INTERNAL'', 13), (''UNAVAILABLE'', 14),
      (''DATA_LOSS'', 15)]"

definition Code_value_at :: "string \<Rightarrow> int" where
  "Code_value_at k = (case Code_value k of None \<Rightarrow> 0 | Some c \<Rightarrow> c)"

subsection \<open>Package state\<close>

text \<open>
  The package holds one variable, \<^verbatim>\<open>spiffeIdRegExp\<close>, nil until the first parse. The
  state also carries the entries handed to the logger, each with its level and message;
  the structured fields and the arguments of a format string are left out.
\<close>

record state =
  spiffeIdRegExp :: "Regexp option"
  logged :: "entry list"

definition log_at :: "level \<Rightarrow> string \<Rightarrow> state \<Rightarrow> state" where
  "log_at l msg s = s\<lparr>logged := logged s @ [(l, msg)]\<rparr>"

abbreviation log_Debug :: "string \<Rightarrow> state \<Rightarrow> state" where
  "log_Debug \<equiv> log_at DebugLevel"

abbreviation log_Info :: "string \<Rightarrow> state \<Rightarrow> state" where
  "log_Info \<equiv> log_at InfoLevel"

abbreviation log_Warn :: "string \<Rightarrow> state \<Rightarrow> state" where
  "log_Warn \<equiv> log_at WarnLevel"

abbreviation log_Error :: "string \<Rightarrow> state \<Rightarrow> state" where
  "log_Error \<equiv> log_at ErrorLevel"

subsection \<open>match.go\<close>

definition SPIFFE_ID_PATTERN :: string where
  "SPIFFE_ID_PATTERN = ''^spiffe://[^/]+/ns/([^/]+)/sa/([^/]+)$''"

text \<open>
  \<^verbatim>\<open>parseSpiffeId\<close> compiles the pattern on the first call, dropping the error of
  \<^verbatim>\<open>Compile\<close>, and stores the result in the package variable. Calling
  \<^verbatim>\<open>FindStringSubmatch\<close> on a nil expression and indexing the match out of range are
  the places where it could panic. The result is Go's triple of named results; on a
  mismatch \<open>name\<close> and \<open>namespace\<close> keep their zero value.
\<close>

definition parseSpiffeId ::
  "string \<Rightarrow> state \<Rightarrow> (panic + string \<times> string \<times> go_error option) \<times> state" where
  "parseSpiffeId ident s =
     (let s1 = (if spiffeIdRegExp s = None
                then s\<lparr>spiffeIdRegExp := fst (Compile SPIFFE_ID_PATTERN)\<rparr>
                else s)
      in case spiffeIdRegExp s1 of
           None \<Rightarrow> (Inl NilPointerDereference, s1)
         | Some re \<Rightarrow>
             (case FindStringSubmatch re ident of
                None \<Rightarrow>
                  (Inr ([], [], Some (Errorf (''expected match '' @ SPIFFE_ID_PATTERN
                                               @ '', got '' @ ident))), s1)
              | Some m \<Rightarrow>
                  (case index m 2 of
                     Inl p \<Rightarrow> (Inl p, s1)
                   | Inr name \<Rightarrow>
                       (case index m 1 of
                          Inl p \<Rightarrow> (Inl p, s1)
                        | Inr namespace \<Rightarrow> (Inr (name, namespace, None), s1)))))"

fun matchServiceAccountName_loop :: "string list \<Rightarrow> string \<Rightarrow> bool" where
  "matchServiceAccountName_loop [] name = False"
| "matchServiceAccountName_loop (name2 # names) name =
     (if name2 = name then True else matchServiceAccountName_loop names name)"

definition matchServiceAccountName :: "string list \<Rightarrow> string \<Rightarrow> state \<Rightarrow> bool \<times> state" where
  "matchServiceAccountName names name s =
     (let s1 = log_Debug ''Matching service account name'' s
      in if length names = 0
         then (True, log_Debug ''No service account names on rule.'' s1)
         else (matchServiceAccountName_loop names name, s1))"

text \<open>
  The selector library is not part of this package: \<open>Parse\<close> stands for
  \<^verbatim>\<open>selector.Parse\<close>, which returns either an error or a selector, and a selector is
  represented by its \<^verbatim>\<open>Evaluate\<close> method.
\<close>

type_synonym selector = "(string \<rightharpoonup> string) \<Rightarrow> bool"

type_synonym selector_parser = "string \<Rightarrow> go_error + selector"

definition matchServiceAccountLabels ::
  "selector_parser \<Rightarrow> string \<Rightarrow> (string \<rightharpoonup> string) \<Rightarrow> state \<Rightarrow> bool \<times> state" where
  "matchServiceAccountLabels Parse selectorStr labels s =
     (let s1 = log_Debug ''Matching service account labels.'' s
      in case Parse selectorStr of
           Inl err \<Rightarrow> (False, log_Warn ''Could not parse policy selector %v, %v'' s1)
         | Inr sel \<Rightarrow> (sel labels, log_Debug ''Parsed selector.'' s1))"

definition matchServiceAccounts ::
  "selector_parser \<Rightarrow> ServiceAccountMatch option \<Rightarrow> AttributeContext_Peer option \<Rightarrow> state
     \<Rightarrow> (panic + bool) \<times> state" where
  "matchServiceAccounts Parse saMatch peer s =
     (let principle = GetPrincipal peer;
          labels = GetLabels peer;
          s1 = log_Debug ''Matching service account.'' s
      in case parseSpiffeId principle s1 of
           (Inl p, s2) \<Rightarrow> (Inl p, s2)
         | (Inr (accountName, namespace, err), s2) \<Rightarrow>
             if err \<noteq> None
             then (Inr False,
                   log_Warn ''Unable to parse authenticated principle as SPIFFE ID.'' s2)
             else
               (let s3 = log_Debug ''Parsed SPIFFE ID.'' s2
                in case saMatch of
                     None \<Rightarrow> (Inr True, log_Debug ''nil ServiceAccountMatch.  Return true.'' s3)
                   | Some sa \<Rightarrow>
                       (case matchServiceAccountName (Names sa) accountName s3 of
                          (b, s4) \<Rightarrow>
                            if b
                            then (case matchServiceAccountLabels Parse (Selector sa) labels s4 of
                                    (b2, s5) \<Rightarrow> (Inr b2, s5))
                            else (Inr False, s4))))"

fun matchHTTPMethods_loop :: "string list \<Rightarrow> string \<Rightarrow> state \<Rightarrow> bool \<times> state" where
  "matchHTTPMethods_loop [] reqMethod s = (False, log_Debug ''HTTP Method not matched.'' s)"
| "matchHTTPMethods_loop (method # methods) reqMethod s =
     (if method = ''*'' then (True, log_Debug ''Rule matches all methods with wildcard *'' s)
      else if method = reqMethod then (True, log_Debug ''HTTP Method matched.'' s)
      else matchHTTPMethods_loop methods reqMethod s)"

definition matchHTTPMethods :: "string list \<Rightarrow> string \<Rightarrow> state \<Rightarrow> bool \<times> state" where
  "matchHTTPMethods methods reqMethod s =
     (let s1 = log_Debug ''Matching HTTP Methods'' s
      in if length methods = 0
         then (True, log_Debug ''Rule has 0 HTTP Methods, matched.'' s1)
         else matchHTTPMethods_loop methods reqMethod s1)"

definition matchHTTP ::
  "HTTPRule option \<Rightarrow> AttributeContext_HTTPRequest option \<Rightarrow> state \<Rightarrow> bool \<times> state" where
  "matchHTTP rule req s =
     (let s1 = log_Debug ''Matching HTTP.'' s
      in case rule of
           None \<Rightarrow> (True, log_Debug ''nil HTTPRule.  Return true'' s1)
         | Some r \<Rightarrow> matchHTTPMethods (Methods r) (GetMethod req) s1)"

definition matchRequest ::
  "Rule \<Rightarrow> AttributeContext_Request option \<Rightarrow> state \<Rightarrow> bool \<times> state" where
  "matchRequest rule req s =
     (let s1 = log_Debug ''Matching request.'' s
      in matchHTTP (HTTP rule) (GetHttp req) s1)"

definition matchPeer ::
  "selector_parser \<Rightarrow> EntityRule \<Rightarrow> AttributeContext_Peer option \<Rightarrow> state
     \<Rightarrow> (panic + bool) \<times> state" where
  "matchPeer Parse er peer s = matchServiceAccounts Parse (ServiceAccounts er) peer s"

text \<open>The right operand of \<^verbatim>\<open>&&\<close> is evaluated only when the left one is true.\<close>

definition match ::
  "selector_parser \<Rightarrow> Rule \<Rightarrow> CheckRequest option \<Rightarrow> state \<Rightarrow> (panic + bool) \<times> state" where
  "match Parse rule req s =
     (let s1 = log_Debug ''Checking rule %v on request %v'' s;
          attr = GetAttributes req
      in case matchPeer Parse (Source rule) (GetSource attr) s1 of
           (Inl p, s2) \<Rightarrow> (Inl p, s2)
         | (Inr b, s2) \<Rightarrow>
             if b then (case matchRequest rule (GetRequest attr) s2 of (b2, s3) \<Rightarrow> (Inr b2, s3))
             else (Inr False, s2))"

subsection \<open>server.go: the Check handler\<close>

text \<open>
  \<^verbatim>\<open>CalicoQuery\<close> is the interface behind \<^verbatim>\<open>auth_server.Query\<close>. Its two methods, and
  the package functions \<^verbatim>\<open>getContainerFromContext\<close> and \<^verbatim>\<open>checkPolicies\<close>, are defined in
  files that are not part of the development; \<open>Check\<close> takes them as parameters.
  \<^verbatim>\<open>GetEndpointFromContainer\<close> returns Go's triple, since \<open>Check\<close> goes on to use the
  name and the namespace after logging its error. \<^verbatim>\<open>checkPolicies\<close> runs in this package
  and therefore passes the package state along. The receiver of \<open>Check\<close> and its
  \<^verbatim>\<open>Query\<close> are what \<^verbatim>\<open>NewServer\<close> builds, and are never nil.
\<close>

record 'pol CalicoQuery =
  GetEndpointFromContainer :: "string \<Rightarrow> string \<Rightarrow> string \<times> string \<times> go_error option"
  GetPolicies :: "string \<Rightarrow> string \<Rightarrow> go_error + 'pol list"

record 'pol auth_server =
  NodeName :: string
  Query :: "'pol CalicoQuery"

definition Check ::
  "('ctx \<Rightarrow> go_error + string)
     \<Rightarrow> ('pol list \<Rightarrow> CheckRequest option \<Rightarrow> state \<Rightarrow> Status \<times> state)
     \<Rightarrow> 'pol auth_server \<Rightarrow> 'ctx \<Rightarrow> CheckRequest option \<Rightarrow> state
     \<Rightarrow> (CheckResponse option \<times> go_error option) \<times> state" where
  "Check getContainerFromContext checkPolicies as ctx req s =
     (let s1 = log_Debug ''Check(%v, %v)'' s;
          resp = \<lparr>Resp_Status = Some \<lparr>Code = Code_value_at ''INTERNAL''\<rparr>\<rparr>
      in case getContainerFromContext ctx of
           Inl err \<Rightarrow> ((Some resp, None), log_Error ''Failed to get container ID. %v'' s1)
         | Inr cid \<Rightarrow>
             (case GetEndpointFromContainer (Query as) cid (NodeName as) of
                (name, namespace, err) \<Rightarrow>
                  (let s2 = (if err \<noteq> None
                             then log_Error ''Failed to get endpoint for container %v. %v'' s1
                             else s1)
                   in case GetPolicies (Query as) name namespace of
                        Inl err2 \<Rightarrow> ((Some resp, None), log_Error ''Failed to get policies. %v'' s2)
                      | Inr policies \<Rightarrow>
                          (case checkPolicies policies req s2 of
                             (st, s3) \<Rightarrow>
                               ((Some (resp\<lparr>Resp_Status := Some st\<rparr>), None),
                                log_Info ''Check complete'' s3)))))"

subsection \<open>Notions used to state the properties\<close>

text \<open>The states the package can be in: the pattern not compiled yet, or compiled.\<close>

definition state_ok :: "state \<Rightarrow> bool" where
  "state_ok s =
     (spiffeIdRegExp s = None \<or> spiffeIdRegExp s = fst (Compile SPIFFE_ID_PATTERN))"

definition init_state :: state where
  "init_state = \<lparr>spiffeIdRegExp = None, logged = []\<rparr>"

text \<open>Whether parsing the principal reports an error (from a fresh package state).\<close>

definition parse_fails :: "string \<Rightarrow> bool" where
  "parse_fails ident =
     (case fst (parseSpiffeId ident init_state) of
        Inl p \<Rightarrow> False
      | Inr (name, namespace, err) \<Rightarrow> err \<noteq> None)"

text \<open>
  The shape \<^verbatim>\<open>spiffe://domain/ns/<namespace>/sa/<name>\<close> in words: three segments, each
  non-empty and free of slashes.
\<close>

definition segment :: "string \<Rightarrow> bool" where
  "segment w = (w \<noteq> [] \<and> CHR ''/'' \<notin> set w)"

definition spiffe_shape :: "string \<Rightarrow> string \<Rightarrow> string \<Rightarrow> string \<Rightarrow> bool" where
  "spiffe_shape ident d ns name =
     (ident = ''spiffe://'' @ d @ ''/ns/'' @ ns @ ''/sa/'' @ name
      \<and> segment d \<and> segment ns \<and> segment name)"

subsection \<open>Auxiliary notions for the proofs\<close>

text \<open>
  The instructions that \<open>Compile\<close> produces for \<open>SPIFFE_ID_PATTERN\<close>, cut after each
  repetition: the continuation of a repetition is what decides how many bytes it keeps.
\<close>

definition spiffe_tail3 :: "inst list" where
  "spiffe_tail3 = [Cap 5, Eol]"

definition spiffe_tail2 :: "inst list" where
  "spiffe_tail2 = Cap 3 # map Chr ''/sa/'' @ Cap 4 # NotChrPlus CHR ''/'' # spiffe_tail3"

definition spiffe_tail1 :: "inst list" where
  "spiffe_tail1 = map Chr ''/ns/'' @ Cap 2 # NotChrPlus CHR ''/'' # spiffe_tail2"

definition spiffe_re :: Regexp where
  "spiffe_re = \<lparr>prog = Bol # map Chr ''spiffe://'' @ NotChrPlus CHR ''/'' # spiffe_tail1,
                numSubexp = 2\<rparr>"

text \<open>What \<open>parseSpiffeId\<close> returns once the pattern is compiled, as a function of the input alone.\<close>

definition parse_result :: "string \<Rightarrow> string \<times> string \<times> go_error option" where
  "parse_result ident =
     (case FindStringSubmatch spiffe_re ident of
        None \<Rightarrow> ([], [], Some (Errorf (''expected match '' @ SPIFFE_ID_PATTERN @ '', got '' @ ident)))
      | Some m \<Rightarrow> (m ! 2, m ! 1, None))"

text \<open>\<open>only_logs s t\<close>: state \<open>t\<close> is \<open>s\<close> with more log entries and no other change.\<close>

definition only_logs :: "state \<Rightarrow> state \<Rightarrow> bool" where
  "only_logs s t = (\<exists>es. t = s\<lparr>logged := logged s @ es\<rparr>)"

definition compiled :: "state \<Rightarrow> state" where
  "compiled s = s\<lparr>spiffeIdRegExp := Some spiffe_re\<rparr>"

text \<open>
  Modelled from the spec: the selector collaborator reads the empty expression as
  "match everything" (data model: \<^verbatim>\<open>labelSelectorExpression: string (empty = match-all)\<close>).
  The library itself is outside this package, so this is a condition on \<open>Parse\<close>.
\<close>

definition empty_selects_all :: "selector_parser \<Rightarrow> bool" where
  "empty_selects_all Parse = (\<exists>sel. Parse [] = Inr sel \<and> (\<forall>labels. sel labels))"

text \<open>The state in which \<open>Check\<close> calls \<open>GetPolicies\<close> and \<open>checkPolicies\<close>.\<close>

definition after_lookup :: "go_error option \<Rightarrow> state \<Rightarrow> state" where
  "after_lookup err s =
     (if err \<noteq> None
      then log_Error ''Failed to get endpoint for container %v. %v'' (log_Debug ''Check(%v, %v)'' s)
      else log_Debug ''Check(%v, %v)'' s)"

subsection \<open>Concrete inputs\<close>

definition example_Parse :: selector_parser where
  "example_Parse str =
     (if str = [] then Inr (\<lambda>labels. True)
      else if str = ''has(role)'' then Inr (\<lambda>labels. labels ''role'' \<noteq> None)
      else Inl (Errorf ''unexpected token''))"

definition example_rule :: Rule where
  "example_rule = \<lparr>Source = \<lparr>ServiceAccounts = None\<rparr>, HTTP = None\<rparr>"

definition example_request :: "string \<Rightarrow> CheckRequest option" where
  "example_request ident =
     Some \<lparr>Attributes = Some \<lparr>Attr_Source = Some \<lparr>Principal = ident, Labels = Map.empty\<rparr>,
                               Attr_Request = None\<rparr>\<rparr>"

definition selective_rule :: Rule where
  "selective_rule = \<lparr>Source = \<lparr>ServiceAccounts = Some \<lparr>Names = [''bar''], Selector = ''((''\<rparr>\<rparr>,
                     HTTP = Some \<lparr>Methods = [''GET'']\<rparr>\<rparr>"

text \<open>
  A query whose endpoint lookup fails for every container but \<open>known\<close>, and whose policy
  fetch still answers for the empty name; and a query whose policy fetch always fails.
\<close>

definition example_query :: "nat CalicoQuery" where
  "example_query =
     \<lparr>GetEndpointFromContainer = (\<lambda>cid node.
          if cid = ''known'' then (''web-1'', ''default'', None)
          else ([], [], Some (Errorf ''no endpoint for container''))),
      GetPolicies = (\<lambda>name namespace.
          if namespace = ''broken'' then Inl (Errorf ''datastore unavailable'')
          else if name = [] then Inr [7] else Inr [])\<rparr>"

definition example_server :: "nat auth_server" where
  "example_server = \<lparr>NodeName = ''node-1'', Query = example_query\<rparr>"

definition broken_query :: "nat CalicoQuery" where
  "broken_query =
     \<lparr>GetEndpointFromContainer = (\<lambda>cid node. (''web-1'', ''default'', None)),
      GetPolicies = (\<lambda>name namespace. Inl (Errorf ''datastore unavailable''))\<rparr>"

definition broken_server :: "nat auth_server" where
  "broken_server = \<lparr>NodeName = ''node-1'', Query = broken_query\<rparr>"

definition example_getContainer :: "string \<Rightarrow> go_error + string" where
  "example_getContainer ctx = (if ctx = [] then Inl (Errorf ''no credentials'') else Inr ctx)"

text \<open>An evaluation that denies when there is no policy and allows otherwise.\<close>

definition example_checkPolicies ::
  "nat list \<Rightarrow> CheckRequest option \<Rightarrow> state \<Rightarrow> Status \<times> state" where
  "example_checkPolicies policies req s =
     (\<lparr>Code = (if policies = [] then Code_value_at ''PERMISSION_DENIED''
               else Code_value_at ''OK'')\<rparr>, s)"

section \<open>The matcher on the identity pattern\<close>

lemma first_some_all_None: "\<forall>x\<in>set xs. x = None \<Longrightarrow> first_some xs = None"
  by (induction xs) simp_all

lemma first_some_SomeD: "first_some xs = Some y \<Longrightarrow> Some y \<in> set xs"
  by (induction xs) (auto split: option.splits)

lemma backtrack_lit:
  "backtrack (map Chr l @ is) pos (l @ rest) cap = backtrack is (pos + length l) rest cap"
  by (induction l arbitrary: pos) auto

lemma backtrack_lit_SomeD:
  "backtrack (map Chr l @ is) pos rest cap = Some r \<Longrightarrow>
     \<exists>rest'. rest = l @ rest' \<and> backtrack is (pos + length l) rest' cap = Some r"
proof (induction l arbitrary: pos rest)
  case Nil
  then show ?case by simp
next
  case (Cons a l)
  from Cons.prems obtain xs where rest: "rest = a # xs"
    and r: "backtrack (map Chr l @ is) (Suc pos) xs cap = Some r"
    by (auto split: list.splits if_splits)
  from Cons.IH [OF r] show ?case using rest by auto
qed

lemma backtrack_plus_SomeD:
  assumes "backtrack (NotChrPlus c # is) pos rest cap = Some r"
  shows "\<exists>w rest'. rest = w @ rest' \<and> w \<noteq> [] \<and> c \<notin> set w
            \<and> backtrack is (pos + length w) rest' cap = Some r"
proof -
  let ?n = "length (takeWhile (\<lambda>x. x \<noteq> c) rest)"
  from assms have "Some r \<in> set (map (\<lambda>k. backtrack is (pos + k) (drop k rest) cap) (rev [1..<Suc ?n]))"
    by (auto dest: first_some_SomeD)
  then obtain k where k: "1 \<le> k" "k \<le> ?n" "backtrack is (pos + k) (drop k rest) cap = Some r"
    by auto
  have le: "?n \<le> length rest" by (rule length_takeWhile_le)
  have "take k rest = take k (takeWhile (\<lambda>x. x \<noteq> c) rest)"
  proof -
    have "take k rest = take k (takeWhile (\<lambda>x. x \<noteq> c) rest @ dropWhile (\<lambda>x. x \<noteq> c) rest)"
      by simp
    also have "\<dots> = take k (takeWhile (\<lambda>x. x \<noteq> c) rest)"
      using k(2) by (simp only: take_append) simp
    finally show ?thesis .
  qed
  then have "c \<notin> set (take k rest)"
    using set_takeWhileD [of c "\<lambda>x. x \<noteq> c" rest] in_set_takeD [of c k "takeWhile (\<lambda>x. x \<noteq> c) rest"]
    by auto
  moreover have "take k rest \<noteq> []" using k le by auto
  moreover have "length (take k rest) = k" using k le by auto
  ultimately show ?thesis using k(3) append_take_drop_id [of k rest]
    by (intro exI [of _ "take k rest"] exI [of _ "drop k rest"]) simp
qed

lemma backtrack_plus_greedy:
  assumes fails: "\<And>p x xs cp. x \<noteq> c \<Longrightarrow> backtrack is p (x # xs) cp = None"
    and w: "w \<noteq> []" "c \<notin> set w" and rest: "rest = [] \<or> hd rest = c"
  shows "backtrack (NotChrPlus c # is) pos (w @ rest) cap = backtrack is (pos + length w) rest cap"
proof -
  let ?P = "\<lambda>x. x \<noteq> c"
  have tw: "takeWhile ?P (w @ rest) = w"
    using w rest by (cases rest) (auto simp: takeWhile_append)
  have n: "length w \<ge> 1" using w by (cases w) auto
  have up: "rev [1..<Suc (length w)] = length w # rev [1..<length w]"
    using n by simp
  have none: "first_some (map (\<lambda>k. backtrack is (pos + k) (drop k (w @ rest)) cap) (rev [1..<length w])) = None"
  proof (rule first_some_all_None, rule ballI)
    fix x assume "x \<in> set (map (\<lambda>k. backtrack is (pos + k) (drop k (w @ rest)) cap) (rev [1..<length w]))"
    then obtain k where k: "1 \<le> k" "k < length w" and x: "x = backtrack is (pos + k) (drop k (w @ rest)) cap"
      by auto
    have "drop k (w @ rest) = (w ! k) # drop (Suc k) w @ rest"
      using k by (simp add: Cons_nth_drop_Suc)
    moreover have "w ! k \<noteq> c" using w(2) k(2) nth_mem [of k w] by auto
    ultimately show "x = None" using x fails by simp
  qed
  show ?thesis
    by (simp only: backtrack.simps tw up list.map first_some.simps none)
       (simp split: option.splits)
qed

lemma Compile_SPIFFE_ID_PATTERN: "Compile SPIFFE_ID_PATTERN = (Some spiffe_re, None)"
  by (simp add: SPIFFE_ID_PATTERN_def Compile_def emit_def meta_chars_def spiffe_re_def
        spiffe_tail1_def spiffe_tail2_def spiffe_tail3_def)

lemma tail3_fails: "x \<noteq> CHR ''/'' \<Longrightarrow> backtrack spiffe_tail3 p (x # xs) cp = None"
  by (simp add: spiffe_tail3_def)

lemma tail2_fails: "x \<noteq> CHR ''/'' \<Longrightarrow> backtrack spiffe_tail2 p (x # xs) cp = None"
  by (simp add: spiffe_tail2_def)

lemma tail1_fails: "x \<noteq> CHR ''/'' \<Longrightarrow> backtrack spiffe_tail1 p (x # xs) cp = None"
  by (simp add: spiffe_tail1_def)

lemma backtrack_tail3:
  "backtrack spiffe_tail3 p [] cp = Some (cp(5 \<mapsto> p, 1 \<mapsto> p))"
  by (simp add: spiffe_tail3_def)

lemma backtrack_tail2:
  assumes "segment name"
  shows "backtrack spiffe_tail2 p (''/sa/'' @ name) cp
           = Some (cp(3 \<mapsto> p, 4 \<mapsto> p + 4, 5 \<mapsto> p + 4 + length name, 1 \<mapsto> p + 4 + length name))"
proof -
  have "backtrack (NotChrPlus CHR ''/'' # spiffe_tail3) q (name @ []) c
          = backtrack spiffe_tail3 (q + length name) [] c" for q c
    using assms by (intro backtrack_plus_greedy tail3_fails) (auto simp: segment_def)
  then have plus: "backtrack (NotChrPlus CHR ''/'' # spiffe_tail3) q name c
          = backtrack spiffe_tail3 (q + length name) [] c" for q c
    by simp
  have "backtrack spiffe_tail2 p (''/sa/'' @ name) cp
          = backtrack (map Chr ''/sa/'' @ Cap 4 # NotChrPlus CHR ''/'' # spiffe_tail3) p
              (''/sa/'' @ name) (cp(3 \<mapsto> p))"
    by (simp only: spiffe_tail2_def backtrack.simps(6))
  also have "\<dots> = backtrack (Cap 4 # NotChrPlus CHR ''/'' # spiffe_tail3) (p + length ''/sa/'')
              name (cp(3 \<mapsto> p))"
    by (rule backtrack_lit)
  also have "\<dots> = Some (cp(3 \<mapsto> p, 4 \<mapsto> p + 4, 5 \<mapsto> p + 4 + length name, 1 \<mapsto> p + 4 + length name))"
    by (simp only: backtrack.simps(6) plus backtrack_tail3) (simp add: eval_nat_numeral)
  finally show ?thesis .
qed

lemma backtrack_tail1:
  assumes "segment ns" "segment name"
  shows "backtrack spiffe_tail1 p (''/ns/'' @ ns @ ''/sa/'' @ name) cp
           = Some (cp(2 \<mapsto> p + 4, 3 \<mapsto> p + 4 + length ns, 4 \<mapsto> p + 8 + length ns,
                      5 \<mapsto> p + 8 + length ns + length name,
                      1 \<mapsto> p + 8 + length ns + length name))"
proof -
  have plus: "backtrack (NotChrPlus CHR ''/'' # spiffe_tail2) q (ns @ ''/sa/'' @ name) c
          = backtrack spiffe_tail2 (q + length ns) (''/sa/'' @ name) c" for q c
    using assms(1) by (intro backtrack_plus_greedy tail2_fails) (auto simp: segment_def)
  have "backtrack spiffe_tail1 p (''/ns/'' @ ns @ ''/sa/'' @ name) cp
          = backtrack (Cap 2 # NotChrPlus CHR ''/'' # spiffe_tail2) (p + length ''/ns/'')
              (ns @ ''/sa/'' @ name) cp"
    unfolding spiffe_tail1_def by (rule backtrack_lit)
  also have "\<dots> = Some (cp(2 \<mapsto> p + 4, 3 \<mapsto> p + 4 + length ns, 4 \<mapsto> p + 8 + length ns,
                      5 \<mapsto> p + 8 + length ns + length name,
                      1 \<mapsto> p + 8 + length ns + length name))"
    by (simp only: backtrack.simps(6) plus backtrack_tail2 [OF assms(2)]) (simp add: eval_nat_numeral)
  finally show ?thesis .
qed

lemma backtrack_spiffe:
  assumes "segment d" "segment ns" "segment name"
  shows "backtrack (prog spiffe_re) 0 (''spiffe://'' @ d @ ''/ns/'' @ ns @ ''/sa/'' @ name) cp
           = Some (cp(2 \<mapsto> 13 + length d, 3 \<mapsto> 13 + length d + length ns,
                      4 \<mapsto> 17 + length d + length ns,
                      5 \<mapsto> 17 + length d + length ns + length name,
                      1 \<mapsto> 17 + length d + length ns + length name))"
proof -
  have plus: "backtrack (NotChrPlus CHR ''/'' # spiffe_tail1) q (d @ ''/ns/'' @ ns @ ''/sa/'' @ name) c
          = backtrack spiffe_tail1 (q + length d) (''/ns/'' @ ns @ ''/sa/'' @ name) c" for q c
    using assms(1) by (intro backtrack_plus_greedy tail1_fails) (auto simp: segment_def)
  have "backtrack (prog spiffe_re) 0 (''spiffe://'' @ d @ ''/ns/'' @ ns @ ''/sa/'' @ name) cp
          = backtrack (map Chr ''spiffe://'' @ NotChrPlus CHR ''/'' # spiffe_tail1) 0
              (''spiffe://'' @ d @ ''/ns/'' @ ns @ ''/sa/'' @ name) cp"
    by (simp add: spiffe_re_def)
  also have "\<dots> = backtrack (NotChrPlus CHR ''/'' # spiffe_tail1) (0 + length ''spiffe://'')
              (d @ ''/ns/'' @ ns @ ''/sa/'' @ name) cp"
    by (rule backtrack_lit)
  also have "\<dots> = Some (cp(2 \<mapsto> 13 + length d, 3 \<mapsto> 13 + length d + length ns,
                      4 \<mapsto> 17 + length d + length ns,
                      5 \<mapsto> 17 + length d + length ns + length name,
                      1 \<mapsto> 17 + length d + length ns + length name))"
    by (simp only: plus backtrack_tail1 [OF assms(2,3)]) (simp add: eval_nat_numeral)
  finally show ?thesis .
qed

lemma drop_length_append: "length a = n \<Longrightarrow> drop n (a @ b) = b"
  by simp

lemma FindStringSubmatch_shape:
  assumes "spiffe_shape ident d ns name"
  shows "FindStringSubmatch spiffe_re ident = Some [ident, ns, name]"
proof -
  from assms have id: "ident = ''spiffe://'' @ d @ ''/ns/'' @ ns @ ''/sa/'' @ name"
    and seg: "segment d" "segment ns" "segment name"
    by (simp_all add: spiffe_shape_def)
  let ?cap = "[0 \<mapsto> 0, 2 \<mapsto> 13 + length d, 3 \<mapsto> 13 + length d + length ns,
                      4 \<mapsto> 17 + length d + length ns,
                      5 \<mapsto> 17 + length d + length ns + length name,
                      1 \<mapsto> 17 + length d + length ns + length name]"
  have up: "[0..<Suc (length ident)] = 0 # [Suc 0..<Suc (length ident)]"
    by (rule upt_conv_Cons) simp
  have search: "first_some (map (\<lambda>i. backtrack (prog spiffe_re) i (drop i ident) [0 \<mapsto> i])
                           [0..<Suc (length ident)]) = Some ?cap"
    unfolding up using backtrack_spiffe [OF seg, of "[0 \<mapsto> 0]"] by (simp add: id)
  have len: "length ident = 17 + length d + length ns + length name"
    by (simp add: id)
  have g0: "group ident ?cap 0 = ident"
    by (simp add: group_def len)
  have d1: "drop (13 + length d) ident = ns @ ''/sa/'' @ name"
    using drop_length_append [of "''spiffe://'' @ d @ ''/ns/''" "13 + length d" "ns @ ''/sa/'' @ name"]
    by (simp add: id)
  have d2: "drop (17 + length d + length ns) ident = name"
    using drop_length_append [of "''spiffe://'' @ d @ ''/ns/'' @ ns @ ''/sa/''"
        "17 + length d + length ns" name]
    by (simp add: id)
  have g1: "group ident ?cap 1 = ns"
    by (simp add: group_def d1)
  have g2: "group ident ?cap 2 = name"
    by (simp add: group_def d2)
  have three: "[0..<Suc (numSubexp spiffe_re)] = [0, 1, 2]"
    by (simp add: spiffe_re_def upt_conv_Cons)
  show ?thesis
    unfolding FindStringSubmatch_def search three using g0 g1 g2 by simp
qed

lemma FindStringSubmatch_SomeD:
  assumes "FindStringSubmatch spiffe_re ident = Some m"
  shows "\<exists>d ns name. spiffe_shape ident d ns name"
proof -
  from assms obtain cap where
    "first_some (map (\<lambda>i. backtrack (prog spiffe_re) i (drop i ident) [0 \<mapsto> i])
                           [0..<Suc (length ident)]) = Some cap"
    by (auto simp: FindStringSubmatch_def split: option.splits)
  then have "Some cap \<in> (\<lambda>i. backtrack (prog spiffe_re) i (drop i ident) [0 \<mapsto> i])
                           ` set [0..<Suc (length ident)]"
    unfolding set_map [symmetric] by (rule first_some_SomeD)
  then obtain i where "Some cap = backtrack (prog spiffe_re) i (drop i ident) [0 \<mapsto> i]"
    by blast
  then have i: "i = 0" and
    b0: "backtrack (map Chr ''spiffe://'' @ NotChrPlus CHR ''/'' # spiffe_tail1) i (drop i ident) [0 \<mapsto> i] = Some cap"
    by (auto simp: spiffe_re_def split: if_splits)
  from backtrack_lit_SomeD [OF b0] i obtain r1 where r1: "ident = ''spiffe://'' @ r1"
    and b1: "backtrack (NotChrPlus CHR ''/'' # spiffe_tail1) (0 + length ''spiffe://'') r1 [0 \<mapsto> 0] = Some cap"
    by auto
  from backtrack_plus_SomeD [OF b1] obtain d r2 where r2: "r1 = d @ r2" and d: "segment d"
    and b2: "backtrack (map Chr ''/ns/'' @ Cap 2 # NotChrPlus CHR ''/'' # spiffe_tail2) (0 + length ''spiffe://'' + length d) r2 [0 \<mapsto> 0] = Some cap"
    by (auto simp: segment_def spiffe_tail1_def)
  from backtrack_lit_SomeD [OF b2] obtain r3 where r3: "r2 = ''/ns/'' @ r3"
    and b3: "backtrack (NotChrPlus CHR ''/'' # spiffe_tail2) (0 + length ''spiffe://'' + length d + length ''/ns/'') r3
               ([0 \<mapsto> 0](2 \<mapsto> 0 + length ''spiffe://'' + length d + length ''/ns/'')) = Some cap"
    by (auto simp only: backtrack.simps)
  from backtrack_plus_SomeD [OF b3] obtain ns r4 p4 c4 where r4: "r3 = ns @ r4" and ns: "segment ns"
    and b4: "backtrack (map Chr ''/sa/'' @ Cap 4 # NotChrPlus CHR ''/'' # spiffe_tail3) p4 r4 c4 = Some cap"
    by (auto simp: segment_def spiffe_tail2_def)
  from backtrack_lit_SomeD [OF b4] obtain r5 p5 c5 where r5: "r4 = ''/sa/'' @ r5"
    and b5: "backtrack (NotChrPlus CHR ''/'' # spiffe_tail3) p5 r5 c5 = Some cap"
    by (auto simp only: backtrack.simps)
  from backtrack_plus_SomeD [OF b5] obtain name r6 p6 c6 where r6: "r5 = name @ r6" and name: "segment name"
    and b6: "backtrack spiffe_tail3 p6 r6 c6 = Some cap"
    by (auto simp: segment_def)
  from b6 have "r6 = []"
    by (auto simp: spiffe_tail3_def split: if_splits)
  with r1 r2 r3 r4 r5 r6 d ns name have "spiffe_shape ident d ns name"
    by (simp add: spiffe_shape_def)
  then show ?thesis by blast
qed

section \<open>State changes of the matchers\<close>

lemma only_logs_trans: "only_logs s t \<Longrightarrow> only_logs t u \<Longrightarrow> only_logs s u"
  unfolding only_logs_def by (elim exE, rule_tac x = "es @ esa" in exI) simp

lemma only_logs_log_at: "only_logs s (log_at l msg s)"
  unfolding only_logs_def log_at_def by (rule exI [of _ "[(l, msg)]"]) simp

lemma only_logs_log_at': "only_logs s t \<Longrightarrow> only_logs s (log_at l msg t)"
  by (erule only_logs_trans) (rule only_logs_log_at)

lemma state_ok_log_at [simp]: "state_ok (log_at l msg s) = state_ok s"
  by (simp add: state_ok_def log_at_def)

section \<open>Parsing an identity\<close>

lemma FindStringSubmatch_length:
  "FindStringSubmatch re ident = Some m \<Longrightarrow> length m = Suc (numSubexp re)"
  by (auto simp: FindStringSubmatch_def split: option.splits)

lemma parseSpiffeId_eq:
  assumes "state_ok s"
  shows "parseSpiffeId ident s = (Inr (parse_result ident), s\<lparr>spiffeIdRegExp := Some spiffe_re\<rparr>)"
proof -
  have len: "length m = 3" if "FindStringSubmatch spiffe_re ident = Some m" for m
    using FindStringSubmatch_length [OF that] by (simp add: spiffe_re_def)
  from assms have "spiffeIdRegExp s = None \<or> spiffeIdRegExp s = Some spiffe_re"
    by (simp add: state_ok_def Compile_SPIFFE_ID_PATTERN)
  then show ?thesis
  proof
    assume "spiffeIdRegExp s = None"
    then show ?thesis
      by (auto simp: parseSpiffeId_def Compile_SPIFFE_ID_PATTERN parse_result_def index_def len
          split: option.splits)
  next
    assume a: "spiffeIdRegExp s = Some spiffe_re"
    then have "s\<lparr>spiffeIdRegExp := Some spiffe_re\<rparr> = s" by (cases s) simp
    with a show ?thesis
      by (auto simp: parseSpiffeId_def parse_result_def index_def len split: option.splits)
  qed
qed

lemma parse_result_shape:
  "spiffe_shape ident d ns name \<Longrightarrow> parse_result ident = (name, ns, None)"
  by (simp add: parse_result_def FindStringSubmatch_shape)

lemma parse_result_no_shape:
  assumes "\<not> (\<exists>d ns name. spiffe_shape ident d ns name)"
  shows "parse_result ident
           = ([], [], Some (Errorf (''expected match '' @ SPIFFE_ID_PATTERN @ '', got '' @ ident)))"
proof (cases "FindStringSubmatch spiffe_re ident")
  case None
  then show ?thesis by (simp add: parse_result_def)
next
  case (Some m)
  with assms FindStringSubmatch_SomeD show ?thesis by blast
qed

lemma state_ok_init: "state_ok init_state"
  by (simp add: state_ok_def init_state_def)

text \<open>Parsing reports an error exactly on the strings that do not have the shape.\<close>

lemma parse_fails_iff: "parse_fails ident = (\<not> (\<exists>d ns name. spiffe_shape ident d ns name))"
proof (cases "\<exists>d ns name. spiffe_shape ident d ns name")
  case True
  then obtain d ns name where "spiffe_shape ident d ns name" by blast
  then show ?thesis
    using parse_result_shape [of ident d ns name]
    by (auto simp: parse_fails_def parseSpiffeId_eq [OF state_ok_init])
next
  case False
  then show ?thesis
    using parse_result_no_shape [of ident]
    by (simp add: parse_fails_def parseSpiffeId_eq [OF state_ok_init])
qed

lemma parse_fails_result: "parse_fails ident = (snd (snd (parse_result ident)) \<noteq> None)"
  by (simp add: parse_fails_def parseSpiffeId_eq [OF state_ok_init] split: prod.splits)

section \<open>The verdict of each matcher\<close>

lemma matchServiceAccountName_loop_eq: "matchServiceAccountName_loop names name = (name \<in> set names)"
  by (induction names) auto

lemma matchServiceAccountName_fst:
  "fst (matchServiceAccountName names name s) = (names = [] \<or> name \<in> set names)"
  by (simp add: matchServiceAccountName_def Let_def matchServiceAccountName_loop_eq)

lemma matchServiceAccountName_snd: "only_logs s (snd (matchServiceAccountName names name s))"
  by (simp add: matchServiceAccountName_def Let_def only_logs_log_at only_logs_log_at')

lemma matchServiceAccountLabels_fst:
  "fst (matchServiceAccountLabels Parse selectorStr labels s)
     = (case Parse selectorStr of Inl err \<Rightarrow> False | Inr sel \<Rightarrow> sel labels)"
  by (simp add: matchServiceAccountLabels_def Let_def split: sum.splits)

lemma matchServiceAccountLabels_snd:
  "only_logs s (snd (matchServiceAccountLabels Parse selectorStr labels s))"
  by (simp add: matchServiceAccountLabels_def Let_def only_logs_log_at only_logs_log_at'
      split: sum.splits)

lemma matchHTTPMethods_loop_fst:
  "fst (matchHTTPMethods_loop methods reqMethod s) = (''*'' \<in> set methods \<or> reqMethod \<in> set methods)"
  by (induction methods) auto

lemma matchHTTPMethods_loop_snd: "only_logs s (snd (matchHTTPMethods_loop methods reqMethod s))"
  by (induction methods) (simp_all add: only_logs_log_at)

lemma matchHTTPMethods_fst:
  "fst (matchHTTPMethods methods reqMethod s)
     = (methods = [] \<or> ''*'' \<in> set methods \<or> reqMethod \<in> set methods)"
  by (simp add: matchHTTPMethods_def Let_def matchHTTPMethods_loop_fst)

lemma matchHTTPMethods_snd: "only_logs s (snd (matchHTTPMethods methods reqMethod s))"
  using only_logs_trans [OF only_logs_log_at matchHTTPMethods_loop_snd]
  by (simp add: matchHTTPMethods_def Let_def only_logs_log_at only_logs_log_at')

lemma matchHTTP_fst:
  "fst (matchHTTP rule req s)
     = (case rule of
          None \<Rightarrow> True
        | Some r \<Rightarrow> Methods r = [] \<or> ''*'' \<in> set (Methods r) \<or> GetMethod req \<in> set (Methods r))"
  by (simp add: matchHTTP_def Let_def matchHTTPMethods_fst split: option.splits)

lemma matchHTTP_snd: "only_logs s (snd (matchHTTP rule req s))"
  using only_logs_trans [OF only_logs_log_at matchHTTPMethods_snd]
  by (simp add: matchHTTP_def Let_def only_logs_log_at only_logs_log_at' split: option.splits)

lemma matchRequest_fst:
  "fst (matchRequest rule req s) = fst (matchHTTP (HTTP rule) (GetHttp req) init_state)"
  by (simp add: matchRequest_def Let_def matchHTTP_fst)

lemma matchRequest_snd: "only_logs s (snd (matchRequest rule req s))"
  using only_logs_trans [OF only_logs_log_at matchHTTP_snd]
  by (simp add: matchRequest_def Let_def)

lemma compiled_log_at: "compiled (log_at l msg s) = log_at l msg (compiled s)"
  by (simp add: compiled_def log_at_def)

lemma matchServiceAccounts_fst:
  assumes "state_ok s"
  shows "fst (matchServiceAccounts Parse saMatch peer s)
           = Inr (case parse_result (GetPrincipal peer) of
                    (name, namespace, err) \<Rightarrow>
                      err = None \<and>
                      (case saMatch of
                         None \<Rightarrow> True
                       | Some sa \<Rightarrow>
                           (Names sa = [] \<or> name \<in> set (Names sa)) \<and>
                           (case Parse (Selector sa) of
                              Inl e \<Rightarrow> False
                            | Inr sel \<Rightarrow> sel (GetLabels peer))))"
proof -
  have ok: "state_ok (log_Debug ''Matching service account.'' s)"
    using assms by simp
  obtain name namespace err where pr: "parse_result (GetPrincipal peer) = (name, namespace, err)"
    by (cases "parse_result (GetPrincipal peer)") auto
  show ?thesis
  proof (cases saMatch)
    case None
    then show ?thesis
      by (simp add: matchServiceAccounts_def Let_def parseSpiffeId_eq [OF ok] pr)
  next
    case (Some sa)
    obtain b s4 where n: "matchServiceAccountName (Names sa) name
        (log_Debug ''Parsed SPIFFE ID.'' (log_Debug ''Matching service account.'' s
            \<lparr>spiffeIdRegExp := Some spiffe_re\<rparr>)) = (b, s4)"
      by (cases "matchServiceAccountName (Names sa) name
        (log_Debug ''Parsed SPIFFE ID.'' (log_Debug ''Matching service account.'' s
            \<lparr>spiffeIdRegExp := Some spiffe_re\<rparr>))") auto
    have b: "b = (Names sa = [] \<or> name \<in> set (Names sa))"
      using matchServiceAccountName_fst [of "Names sa" name] n
      by (metis fst_conv)
    obtain b2 s5 where l: "matchServiceAccountLabels Parse (Selector sa) (GetLabels peer) s4 = (b2, s5)"
      by (cases "matchServiceAccountLabels Parse (Selector sa) (GetLabels peer) s4") auto
    have b2: "b2 = (case Parse (Selector sa) of Inl e \<Rightarrow> False | Inr sel \<Rightarrow> sel (GetLabels peer))"
      using matchServiceAccountLabels_fst [of Parse "Selector sa" "GetLabels peer" s4] l
      by simp
    show ?thesis
      using Some b b2
      by (simp add: matchServiceAccounts_def Let_def parseSpiffeId_eq [OF ok] pr n l)
  qed
qed

lemma matchServiceAccounts_snd:
  assumes "state_ok s"
  shows "only_logs (compiled s) (snd (matchServiceAccounts Parse saMatch peer s))"
proof -
  have ok: "state_ok (log_Debug ''Matching service account.'' s)"
    using assms by simp
  obtain name namespace err where pr: "parse_result (GetPrincipal peer) = (name, namespace, err)"
    by (cases "parse_result (GetPrincipal peer)") auto
  let ?s2 = "log_Debug ''Matching service account.'' (compiled s)"
  have s2: "log_Debug ''Matching service account.'' s\<lparr>spiffeIdRegExp := Some spiffe_re\<rparr> = ?s2"
    by (simp add: compiled_def log_at_def)
  have l2: "only_logs (compiled s) ?s2" by (rule only_logs_log_at)
  show ?thesis
  proof (cases saMatch)
    case None
    then show ?thesis
      using l2
      by (simp add: matchServiceAccounts_def Let_def parseSpiffeId_eq [OF ok] pr s2
          only_logs_log_at')
  next
    case (Some sa)
    let ?s3 = "log_Debug ''Parsed SPIFFE ID.'' ?s2"
    obtain b s4 where n: "matchServiceAccountName (Names sa) name ?s3 = (b, s4)"
      by (cases "matchServiceAccountName (Names sa) name ?s3") auto
    have l4: "only_logs (compiled s) s4"
      using matchServiceAccountName_snd [of ?s3 "Names sa" name] n
        only_logs_trans [OF only_logs_log_at' [OF l2]]
      by simp
    obtain b2 s5 where l: "matchServiceAccountLabels Parse (Selector sa) (GetLabels peer) s4 = (b2, s5)"
      by (cases "matchServiceAccountLabels Parse (Selector sa) (GetLabels peer) s4") auto
    have l5: "only_logs (compiled s) s5"
      using matchServiceAccountLabels_snd [of s4 Parse "Selector sa" "GetLabels peer"] l
        only_logs_trans [OF l4]
      by simp
    show ?thesis
      using Some l2 l4 l5
      by (simp add: matchServiceAccounts_def Let_def parseSpiffeId_eq [OF ok] pr s2 n l
          only_logs_log_at')
  qed
qed

lemma match_fst:
  assumes "state_ok s"
  shows "fst (match Parse rule req s)
           = Inr (projr (fst (matchPeer Parse (Source rule) (GetSource (GetAttributes req)) init_state))
                  \<and> fst (matchRequest rule (GetRequest (GetAttributes req)) init_state))"
proof -
  let ?s1 = "log_Debug ''Checking rule %v on request %v'' s"
  let ?peer = "GetSource (GetAttributes req)"
  have ok: "state_ok ?s1" using assms by simp
  obtain r s2 where p: "matchPeer Parse (Source rule) ?peer ?s1 = (r, s2)"
    by (cases "matchPeer Parse (Source rule) ?peer ?s1") auto
  have "r = fst (matchPeer Parse (Source rule) ?peer ?s1)" using p by simp
  also have "\<dots> = fst (matchPeer Parse (Source rule) ?peer init_state)"
    by (simp only: matchPeer_def matchServiceAccounts_fst [OF ok]
          matchServiceAccounts_fst [OF state_ok_init])
  finally have r: "r = fst (matchPeer Parse (Source rule) ?peer init_state)" .
  obtain b where b: "fst (matchPeer Parse (Source rule) ?peer init_state) = Inr b"
    by (simp add: matchPeer_def matchServiceAccounts_fst [OF state_ok_init])
  obtain b2 s3 where q: "matchRequest rule (GetRequest (GetAttributes req)) s2 = (b2, s3)"
    by (cases "matchRequest rule (GetRequest (GetAttributes req)) s2") auto
  have b2: "b2 = fst (matchRequest rule (GetRequest (GetAttributes req)) init_state)"
    using q matchRequest_fst [of rule "GetRequest (GetAttributes req)" s2]
      matchRequest_fst [of rule "GetRequest (GetAttributes req)" init_state]
    by simp
  show ?thesis
    using r b b2 by (simp add: match_def Let_def p q)
qed

lemma match_snd:
  assumes "state_ok s"
  shows "only_logs (compiled s) (snd (match Parse rule req s))"
proof -
  let ?s1 = "log_Debug ''Checking rule %v on request %v'' s"
  let ?peer = "GetSource (GetAttributes req)"
  have ok: "state_ok ?s1" using assms by simp
  obtain r s2 where p: "matchPeer Parse (Source rule) ?peer ?s1 = (r, s2)"
    by (cases "matchPeer Parse (Source rule) ?peer ?s1") auto
  have "only_logs (compiled ?s1) s2"
    using matchServiceAccounts_snd [OF ok, of Parse "ServiceAccounts (Source rule)" ?peer] p
    by (simp add: matchPeer_def)
  then have l2: "only_logs (compiled s) s2"
    using only_logs_trans [OF only_logs_log_at] by (simp add: compiled_log_at)
  obtain b2 s3 where q: "matchRequest rule (GetRequest (GetAttributes req)) s2 = (b2, s3)"
    by (cases "matchRequest rule (GetRequest (GetAttributes req)) s2") auto
  have l3: "only_logs (compiled s) s3"
    using matchRequest_snd [of s2 rule "GetRequest (GetAttributes req)"] q only_logs_trans [OF l2]
    by simp
  show ?thesis
    using l2 l3 by (cases r) (simp_all add: match_def Let_def p q)
qed

lemma matchPeer_fst:
  assumes "state_ok s"
  shows "fst (matchPeer Parse er peer s)
           = Inr (case parse_result (GetPrincipal peer) of
                    (name, namespace, err) \<Rightarrow>
                      err = None \<and>
                      (case ServiceAccounts er of
                         None \<Rightarrow> True
                       | Some sa \<Rightarrow>
                           (Names sa = [] \<or> name \<in> set (Names sa)) \<and>
                           (case Parse (Selector sa) of
                              Inl e \<Rightarrow> False
                            | Inr sel \<Rightarrow> sel (GetLabels peer))))"
  unfolding matchPeer_def by (rule matchServiceAccounts_fst [OF assms])

lemma parse_fails_None: "parse_fails ident \<Longrightarrow> snd (snd (parse_result ident)) \<noteq> None"
  by (simp add: parse_fails_result)

lemma matchPeer_parse_fails:
  assumes "state_ok s" and "parse_fails (GetPrincipal peer)"
  shows "fst (matchPeer Parse er peer s) = Inr False"
  using parse_fails_None [OF assms(2)]
  by (cases "parse_result (GetPrincipal peer)") (simp add: matchPeer_fst [OF assms(1)])

lemma match_parse_fails:
  assumes "state_ok s" and "parse_fails (GetPrincipal (GetSource (GetAttributes req)))"
  shows "fst (match Parse rule req s) = Inr False"
  by (simp add: match_fst [OF assms(1)] matchPeer_parse_fails [OF state_ok_init assms(2)])

lemma parse_fails_empty: "parse_fails []"
  by code_simp

lemma only_logs_compiledD:
  "only_logs (compiled s) t \<Longrightarrow>
   \<exists>es. t = s\<lparr>spiffeIdRegExp := fst (Compile SPIFFE_ID_PATTERN), logged := logged s @ es\<rparr>"
  by (auto simp: only_logs_def compiled_def Compile_SPIFFE_ID_PATTERN)

section \<open>The Check handler\<close>

lemma Code_value_INTERNAL: "Code_value_at ''INTERNAL'' = 13"
  by (simp add: Code_value_at_def Code_value_def)

lemma Check_no_policies:
  "getContainerFromContext ctx = Inr cid \<Longrightarrow>
   GetEndpointFromContainer (Query as) cid (NodeName as) = (name, namespace, err) \<Longrightarrow>
   GetPolicies (Query as) name namespace = Inl e \<Longrightarrow>
   Check getContainerFromContext checkPolicies as ctx req s
     = ((Some \<lparr>Resp_Status = Some \<lparr>Code = 13\<rparr>\<rparr>, None),
        log_Error ''Failed to get policies. %v'' (after_lookup err s))"
  by (simp add: Check_def Let_def Code_value_INTERNAL after_lookup_def)

lemma Check_evaluates:
  "getContainerFromContext ctx = Inr cid \<Longrightarrow>
   GetEndpointFromContainer (Query as) cid (NodeName as) = (name, namespace, err) \<Longrightarrow>
   GetPolicies (Query as) name namespace = Inr policies \<Longrightarrow>
   Check getContainerFromContext checkPolicies as ctx req s
     = ((Some \<lparr>Resp_Status = Some (fst (checkPolicies policies req (after_lookup err s)))\<rparr>, None),
        log_Info ''Check complete'' (snd (checkPolicies policies req (after_lookup err s))))"
  by (simp add: Check_def Let_def after_lookup_def split: prod.splits)

section \<open>Properties of the decision pipeline\<close>

text \<open>
  C1 (as amended). With an absent \<open>ServiceAccountMatch\<close>, \<open>matchServiceAccounts\<close> is true
  exactly when the peer's principal parses as an identity: the principal is parsed
  before the rule is looked at, and a principal that does not parse makes the peer fail.
  Hence a rule with absent service-account match and absent HTTP rule matches a request
  if and only if the request's principal parses.
\<close>

theorem match_absent_constraints:
  assumes "state_ok s" and "ServiceAccounts (Source rule) = None" and "HTTP rule = None"
  shows "fst (match Parse rule req s)
           = Inr (\<not> parse_fails (GetPrincipal (GetSource (GetAttributes req))))
       \<and> fst (matchServiceAccounts Parse None peer s) = Inr (\<not> parse_fails (GetPrincipal peer))"
proof -
  have a: "fst (matchServiceAccounts Parse None p s) = Inr (\<not> parse_fails (GetPrincipal p))" for p
    by (simp add: matchServiceAccounts_fst [OF assms(1)] parse_fails_result split: prod.splits)
  have "fst (matchRequest rule (GetRequest (GetAttributes req)) init_state) = True"
    by (simp add: matchRequest_fst matchHTTP_fst assms(3))
  then show ?thesis
    using a [of peer] a [of "GetSource (GetAttributes req)"]
    by (simp add: match_fst [OF assms(1)] matchPeer_fst [OF state_ok_init] assms(2)
        parse_fails_result split: prod.splits)
qed

text \<open>
  The statement without the condition on the principal fails: the rule with no
  constraint does not match a request whose principal is \<^verbatim>\<open>not-a-spiffe-id\<close>.
\<close>

theorem match_absent_constraints_counterexample:
  "ServiceAccounts (Source example_rule) = None \<and> HTTP example_rule = None
   \<and> fst (match example_Parse example_rule (example_request ''not-a-spiffe-id'') init_state)
       = Inr False"
  by code_simp

theorem match_absent_constraints_witness:
  "state_ok init_state
   \<and> ServiceAccounts (Source example_rule) = None \<and> HTTP example_rule = None
   \<and> parse_fails ''spiffe://cluster.local/ns/foo/sa/bar'' = False
   \<and> fst (match example_Parse example_rule
            (example_request ''spiffe://cluster.local/ns/foo/sa/bar'') init_state) = Inr True
   \<and> parse_fails ''not-a-spiffe-id'' = True"
proof -
  have ok: "state_ok init_state"
    by (simp add: state_ok_def init_state_def)
  have r: "ServiceAccounts (Source example_rule) = None" "HTTP example_rule = None"
    by (simp_all add: example_rule_def)
  have p: "parse_fails ''spiffe://cluster.local/ns/foo/sa/bar'' = False"
    by code_simp
  have q: "parse_fails ''not-a-spiffe-id'' = True"
    by code_simp
  have g: "GetPrincipal (GetSource (GetAttributes (example_request ident))) = ident" for ident
    by (simp add: example_request_def GetAttributes_def GetSource_def GetPrincipal_def)
  show ?thesis
    using ok r p q g
      match_absent_constraints [OF ok r, of example_Parse
        "example_request ''spiffe://cluster.local/ns/foo/sa/bar''"]
    by simp
qed

text \<open>
  C2. \<open>match\<close> never panics and returns the conjunction of the verdict of \<open>matchPeer\<close>
  and the verdict of \<open>matchRequest\<close>; the verdict of \<open>matchPeer\<close> is false whenever the
  principal does not parse. The verdict depends on the rule and the request only, not on
  the package state; the only effects are that the compiled pattern is stored and that
  entries are appended to the log.
\<close>

theorem match_spec:
  assumes "state_ok s"
  shows "\<exists>bp. fst (matchPeer Parse (Source rule) (GetSource (GetAttributes req)) s) = Inr bp
            \<and> (parse_fails (GetPrincipal (GetSource (GetAttributes req))) \<longrightarrow> bp = False)
            \<and> fst (match Parse rule req s)
                = Inr (bp \<and> fst (matchRequest rule (GetRequest (GetAttributes req)) s))
            \<and> fst (match Parse rule req s) = fst (match Parse rule req init_state)
            \<and> (\<exists>es. snd (match Parse rule req s)
                       = s\<lparr>spiffeIdRegExp := fst (Compile SPIFFE_ID_PATTERN),
                           logged := logged s @ es\<rparr>)"
proof -
  let ?peer = "GetSource (GetAttributes req)"
  obtain bp where bp: "fst (matchPeer Parse (Source rule) ?peer s) = Inr bp"
    by (simp add: matchPeer_fst [OF assms])
  have same: "fst (matchPeer Parse (Source rule) ?peer init_state) = Inr bp"
    using bp by (simp add: matchPeer_fst [OF assms] matchPeer_fst [OF state_ok_init])
  have fails: "parse_fails (GetPrincipal ?peer) \<longrightarrow> bp = False"
    using bp matchPeer_parse_fails [OF assms, of ?peer Parse "Source rule"] by auto
  have req: "fst (matchRequest rule (GetRequest (GetAttributes req)) s)
               = fst (matchRequest rule (GetRequest (GetAttributes req)) init_state)"
    by (simp add: matchRequest_fst)
  have m: "fst (match Parse rule req s)
             = Inr (bp \<and> fst (matchRequest rule (GetRequest (GetAttributes req)) s))"
    by (simp add: match_fst [OF assms] same req)
  have pure: "fst (match Parse rule req s) = fst (match Parse rule req init_state)"
    by (simp add: match_fst [OF assms] match_fst [OF state_ok_init])
  from bp fails m pure only_logs_compiledD [OF match_snd [OF assms, of Parse rule req]]
  show ?thesis by blast
qed

theorem match_spec_witness:
  "state_ok (log_Debug ''earlier entry'' init_state)
   \<and> parse_fails ''not-a-spiffe-id''
   \<and> fst (matchPeer example_Parse (Source example_rule)
            (GetSource (GetAttributes (example_request ''not-a-spiffe-id'')))
            (log_Debug ''earlier entry'' init_state)) = Inr False
   \<and> fst (match example_Parse example_rule (example_request ''not-a-spiffe-id'')
            (log_Debug ''earlier entry'' init_state)) = Inr False
   \<and> fst (match example_Parse example_rule (example_request ''not-a-spiffe-id'') init_state)
       = Inr False
   \<and> spiffeIdRegExp (snd (match example_Parse example_rule (example_request ''not-a-spiffe-id'')
            (log_Debug ''earlier entry'' init_state))) = fst (Compile SPIFFE_ID_PATTERN)"
proof -
  have ok: "state_ok (log_Debug ''earlier entry'' init_state)"
    by (simp add: state_ok_def init_state_def log_at_def)
  have g: "GetPrincipal (GetSource (GetAttributes (example_request ident))) = ident" for ident
    by (simp add: example_request_def GetAttributes_def GetSource_def GetPrincipal_def)
  have p: "parse_fails ''not-a-spiffe-id''"
    by code_simp
  show ?thesis
    using ok p g match_spec [OF ok, of example_Parse example_rule "example_request ''not-a-spiffe-id''"]
    by auto
qed

text \<open>
  C3. \<open>matchHTTP\<close> is true when the rule is absent, true when its list of methods is
  empty, true when some entry of the list is \<open>"*"\<close> or equals the request's method as a
  byte string, and false otherwise; so a \<open>"*"\<close> anywhere in the list matches every method.
  With methods \<open>["GET", "POST"]\<close> the method \<open>"DELETE"\<close> does not match, \<open>"GET"\<close> does, and
  \<open>"get"\<close> does not.
\<close>

theorem matchHTTP_spec:
  "fst (matchHTTP rule req s)
     = (case rule of
          None \<Rightarrow> True
        | Some r \<Rightarrow> Methods r = [] \<or> ''*'' \<in> set (Methods r) \<or> GetMethod req \<in> set (Methods r))
   \<and> fst (matchHTTP (Some \<lparr>Methods = [''GET'', ''POST'']\<rparr>) (Some \<lparr>Method = ''DELETE''\<rparr>) s) = False
   \<and> fst (matchHTTP (Some \<lparr>Methods = [''GET'', ''POST'']\<rparr>) (Some \<lparr>Method = ''GET''\<rparr>) s) = True
   \<and> fst (matchHTTP (Some \<lparr>Methods = [''GET'', ''POST'']\<rparr>) (Some \<lparr>Method = ''get''\<rparr>) s) = False"
  by (simp add: matchHTTP_fst GetMethod_def)

text \<open>
  C4. \<open>parseSpiffeId\<close> succeeds exactly on the strings of the shape
  \<^verbatim>\<open>spiffe://<domain>/ns/<namespace>/sa/<name>\<close>, where the three segments are non-empty
  and contain no slash. On success it returns the name and the namespace, both
  non-empty, and no error; on any other input it returns the error built from the
  pattern and the input, with empty name and namespace. For
  \<^verbatim>\<open>spiffe://cluster.local/ns/foo/sa/bar\<close> the name is \<open>bar\<close> and the namespace \<open>foo\<close>;
  \<^verbatim>\<open>not-a-spiffe-id\<close> is rejected.
\<close>

theorem parseSpiffeId_spec:
  assumes "state_ok s"
  shows "(\<forall>d ns name. spiffe_shape ident d ns name \<longrightarrow>
            fst (parseSpiffeId ident s) = Inr (name, ns, None))
       \<and> ((\<nexists>d ns name. spiffe_shape ident d ns name) \<longrightarrow>
            fst (parseSpiffeId ident s)
              = Inr ([], [], Some (Errorf (''expected match '' @ SPIFFE_ID_PATTERN
                                           @ '', got '' @ ident))))
       \<and> (\<forall>name ns. fst (parseSpiffeId ident s) = Inr (name, ns, None) \<longrightarrow>
            name \<noteq> [] \<and> ns \<noteq> [] \<and> (\<exists>d. spiffe_shape ident d ns name))
       \<and> fst (parseSpiffeId ''spiffe://cluster.local/ns/foo/sa/bar'' s) = Inr (''bar'', ''foo'', None)
       \<and> fst (parseSpiffeId ''not-a-spiffe-id'' s)
           = Inr ([], [], Some (Errorf (''expected match '' @ SPIFFE_ID_PATTERN
                                        @ '', got not-a-spiffe-id'')))"
proof -
  have ex1: "spiffe_shape ''spiffe://cluster.local/ns/foo/sa/bar'' ''cluster.local'' ''foo'' ''bar''"
    by (simp add: spiffe_shape_def segment_def)
  have ex2: "\<nexists>d ns name. spiffe_shape ''not-a-spiffe-id'' d ns name"
    by (simp add: spiffe_shape_def)
  have conv: "name \<noteq> [] \<and> ns \<noteq> [] \<and> (\<exists>d. spiffe_shape ident d ns name)"
    if r: "fst (parseSpiffeId ident s) = Inr (name, ns, None)" for name ns
  proof (cases "\<exists>d ns' name'. spiffe_shape ident d ns' name'")
    case True
    then obtain d ns' name' where sh: "spiffe_shape ident d ns' name'" by blast
    with r have "name = name'" "ns = ns'"
      by (simp_all add: parseSpiffeId_eq [OF assms] parse_result_shape)
    with sh show ?thesis by (auto simp: spiffe_shape_def segment_def)
  next
    case False
    with r show ?thesis
      by (simp add: parseSpiffeId_eq [OF assms] parse_result_no_shape)
  qed
  show ?thesis
    using parse_result_shape [OF ex1] parse_result_no_shape [OF ex2] conv
    by (auto simp: parseSpiffeId_eq [OF assms] parse_result_shape parse_result_no_shape)
qed

theorem parseSpiffeId_spec_witness:
  "state_ok init_state
   \<and> spiffe_shape ''spiffe://example.org/ns/default/sa/web'' ''example.org'' ''default'' ''web''
   \<and> fst (parseSpiffeId ''spiffe://example.org/ns/default/sa/web'' init_state)
       = Inr (''web'', ''default'', None)
   \<and> (\<nexists>d ns name. spiffe_shape ''spiffe://example.org/ns/default'' d ns name)
   \<and> fst (parseSpiffeId ''spiffe://example.org/ns/default'' init_state)
       = Inr ([], [], Some (Errorf (''expected match '' @ SPIFFE_ID_PATTERN
                                    @ '', got spiffe://example.org/ns/default'')))"
proof -
  have ok: "state_ok init_state"
    by (simp add: state_ok_def init_state_def)
  have sh: "spiffe_shape ''spiffe://example.org/ns/default/sa/web'' ''example.org'' ''default'' ''web''"
    by (simp add: spiffe_shape_def segment_def)
  have no: "\<nexists>d ns name. spiffe_shape ''spiffe://example.org/ns/default'' d ns name"
    by (auto simp: spiffe_shape_def segment_def append_eq_Cons_conv Cons_eq_append_conv)
  show ?thesis
    using ok sh no
      parseSpiffeId_spec [OF ok, of "''spiffe://example.org/ns/default/sa/web''"]
      parseSpiffeId_spec [OF ok, of "''spiffe://example.org/ns/default''"]
    by simp
qed

text \<open>
  C5. \<open>matchServiceAccountLabels\<close> hands the selector expression to the external parser
  and evaluates the parsed selector on the peer's labels. When parsing fails the result
  is false, a warning is logged, and nothing but the boolean reaches the caller. The
  function has no branch of its own for the empty expression: it is true there because
  the parser reads the empty expression as the selector that matches everything.
\<close>

theorem matchServiceAccountLabels_spec:
  "fst (matchServiceAccountLabels Parse selectorStr labels s)
     = (case Parse selectorStr of Inl err \<Rightarrow> False | Inr sel \<Rightarrow> sel labels)
   \<and> (\<forall>err. Parse selectorStr = Inl err \<longrightarrow>
         snd (matchServiceAccountLabels Parse selectorStr labels s)
           = s\<lparr>logged := logged s @ [(DebugLevel, ''Matching service account labels.''),
                                     (WarnLevel, ''Could not parse policy selector %v, %v'')]\<rparr>)
   \<and> (empty_selects_all Parse \<longrightarrow> fst (matchServiceAccountLabels Parse [] labels s) = True)"
  by (auto simp: matchServiceAccountLabels_def Let_def log_at_def empty_selects_all_def
      split: sum.splits)

theorem matchServiceAccountLabels_spec_witness:
  "example_Parse ''(('' = Inl (Errorf ''unexpected token'')
   \<and> fst (matchServiceAccountLabels example_Parse ''(('' Map.empty init_state) = False
   \<and> logged (snd (matchServiceAccountLabels example_Parse ''(('' Map.empty init_state))
       = [(DebugLevel, ''Matching service account labels.''),
          (WarnLevel, ''Could not parse policy selector %v, %v'')]
   \<and> empty_selects_all example_Parse
   \<and> fst (matchServiceAccountLabels example_Parse [] Map.empty init_state) = True"
proof -
  have p: "example_Parse ''(('' = Inl (Errorf ''unexpected token'')"
    by (simp add: example_Parse_def)
  have e: "empty_selects_all example_Parse"
    by (simp add: empty_selects_all_def example_Parse_def)
  show ?thesis
    using p e matchServiceAccountLabels_spec [of example_Parse "''((''" Map.empty init_state]
    by (simp add: init_state_def)
qed

text \<open>
  C6. For every list of names and every account name, \<open>matchServiceAccountName\<close> returns
  true if the list is empty, and otherwise returns true exactly when the account name
  occurs in the list, under plain equality of byte strings (no case folding, no
  normalisation): on the empty list it is true for every name, on \<open>["x"]\<close> it is true for
  \<open>"x"\<close> and false for \<open>"y"\<close> and for \<open>"X"\<close>.
\<close>

theorem matchServiceAccountName_spec:
  "fst (matchServiceAccountName names name s) = (names = [] \<or> name \<in> set names)
   \<and> fst (matchServiceAccountName [] name s) = True
   \<and> fst (matchServiceAccountName [''x''] ''x'' s) = True
   \<and> fst (matchServiceAccountName [''x''] ''y'' s) = False
   \<and> fst (matchServiceAccountName [''x''] ''X'' s) = False"
  by (simp add: matchServiceAccountName_fst)

text \<open>
  C7 (as amended). Once the container is known, a failed endpoint lookup does not end
  the check: whether or not the lookup reported an error, \<open>Check\<close> asks for the policies
  of the name and namespace that the lookup returned, and evaluates exactly the policies
  it is given. When the policy fetch fails, \<open>Check\<close> answers \<open>INTERNAL\<close> at once: the
  response and the final state are fixed without \<open>checkPolicies\<close> being applied.
\<close>

theorem Check_resolve_then_fetch:
  assumes "getContainerFromContext ctx = Inr cid"
    and "GetEndpointFromContainer (Query as) cid (NodeName as) = (name, namespace, err)"
  shows "fst (Check getContainerFromContext checkPolicies as ctx req s)
           = (case GetPolicies (Query as) name namespace of
                Inl e \<Rightarrow> (Some \<lparr>Resp_Status = Some \<lparr>Code = Code_value_at ''INTERNAL''\<rparr>\<rparr>, None)
              | Inr policies \<Rightarrow>
                  (Some \<lparr>Resp_Status = Some (fst (checkPolicies policies req (after_lookup err s)))\<rparr>,
                   None))
       \<and> (\<forall>e. GetPolicies (Query as) name namespace = Inl e \<longrightarrow>
            Check getContainerFromContext checkPolicies as ctx req s
              = ((Some \<lparr>Resp_Status = Some \<lparr>Code = 13\<rparr>\<rparr>, None),
                 log_Error ''Failed to get policies. %v'' (after_lookup err s)))"
  using assms
  by (auto simp: Check_no_policies Check_evaluates Code_value_INTERNAL split: sum.splits)

text \<open>
  The evaluation after a failed lookup need not run on an empty list of policies: here
  the lookup fails, the fetch returns one policy, and the response is the verdict on that
  policy (\<open>OK\<close>), not the verdict on no policies (\<open>PERMISSION_DENIED\<close>).
\<close>

theorem Check_resolve_counterexample:
  "example_getContainer ''unknown'' = Inr ''unknown''
   \<and> GetEndpointFromContainer (Query example_server) ''unknown'' (NodeName example_server)
       = ([], [], Some (Errorf ''no endpoint for container''))
   \<and> GetPolicies (Query example_server) [] [] = Inr [7]
   \<and> fst (Check example_getContainer example_checkPolicies example_server ''unknown'' None init_state)
       = (Some \<lparr>Resp_Status = Some \<lparr>Code = 0\<rparr>\<rparr>, None)
   \<and> fst (example_checkPolicies [7] None (after_lookup (Some (Errorf ''no endpoint for container'')) init_state))
       = \<lparr>Code = 0\<rparr>
   \<and> fst (example_checkPolicies [] None (after_lookup (Some (Errorf ''no endpoint for container'')) init_state))
       = \<lparr>Code = 7\<rparr>"
  by (simp add: example_getContainer_def example_server_def example_query_def
      example_checkPolicies_def Check_def Let_def Code_value_at_def Code_value_def)

theorem Check_resolve_then_fetch_witness:
  "example_getContainer ''unknown'' = Inr ''unknown''
   \<and> GetEndpointFromContainer (Query example_server) ''unknown'' (NodeName example_server)
       = ([], [], Some (Errorf ''no endpoint for container''))
   \<and> GetPolicies (Query example_server) [] [] = Inr [7]
   \<and> fst (Check example_getContainer example_checkPolicies example_server ''unknown'' None init_state)
       = (Some \<lparr>Resp_Status = Some \<lparr>Code = 0\<rparr>\<rparr>, None)
   \<and> GetEndpointFromContainer (Query broken_server) ''known'' (NodeName broken_server)
       = (''web-1'', ''default'', None)
   \<and> GetPolicies (Query broken_server) ''web-1'' ''default'' = Inl (Errorf ''datastore unavailable'')
   \<and> Check example_getContainer example_checkPolicies broken_server ''known'' None init_state
       = ((Some \<lparr>Resp_Status = Some \<lparr>Code = 13\<rparr>\<rparr>, None),
          \<lparr>spiffeIdRegExp = None,
           logged = [(DebugLevel, ''Check(%v, %v)''), (ErrorLevel, ''Failed to get policies. %v'')]\<rparr>)"
proof -
  have c1: "example_getContainer ''unknown'' = Inr ''unknown''"
    and c2: "example_getContainer ''known'' = Inr ''known''"
    by (simp_all add: example_getContainer_def)
  have e1: "GetEndpointFromContainer (Query example_server) ''unknown'' (NodeName example_server)
       = ([], [], Some (Errorf ''no endpoint for container''))"
    by (simp add: example_server_def example_query_def)
  have e2: "GetEndpointFromContainer (Query broken_server) ''known'' (NodeName broken_server)
       = (''web-1'', ''default'', None)"
    by (simp add: broken_server_def broken_query_def)
  have p1: "GetPolicies (Query example_server) [] [] = Inr [7]"
    by (simp add: example_server_def example_query_def)
  have p2: "GetPolicies (Query broken_server) ''web-1'' ''default'' = Inl (Errorf ''datastore unavailable'')"
    by (simp add: broken_server_def broken_query_def)
  show ?thesis
    using c1 e1 e2 p1 p2
      Check_resolve_then_fetch [where getContainerFromContext = example_getContainer
        and ctx = "''unknown''" and as = example_server and checkPolicies = example_checkPolicies
        and req = None and s = init_state, OF c1 e1]
      Check_resolve_then_fetch [where getContainerFromContext = example_getContainer
        and ctx = "''known''" and as = broken_server and checkPolicies = example_checkPolicies
        and req = None and s = init_state, OF c2 e2]
    by (simp add: example_checkPolicies_def Code_value_at_def Code_value_def after_lookup_def
        log_at_def init_state_def)
qed

text \<open>
  C8. For every request, whatever parts of it are absent and whether or not its principal
  parses, \<open>match\<close> returns a boolean and does not panic: a principal that does not parse
  and a selector that does not parse both give false, and so does a request without
  attributes or without a peer. \<open>Check\<close> always returns a response that carries a status.
\<close>

theorem never_panics:
  assumes "state_ok s"
  shows "(\<exists>b. fst (match Parse rule req s) = Inr b)
       \<and> (parse_fails (GetPrincipal (GetSource (GetAttributes req))) \<longrightarrow>
            fst (match Parse rule req s) = Inr False)
       \<and> (\<forall>sa e. ServiceAccounts (Source rule) = Some sa \<and> Parse (Selector sa) = Inl e \<longrightarrow>
            fst (match Parse rule req s) = Inr False)
       \<and> fst (match Parse rule None s) = Inr False
       \<and> fst (match Parse rule (Some \<lparr>Attributes = None\<rparr>) s) = Inr False
       \<and> fst (match Parse rule (Some \<lparr>Attributes = Some \<lparr>Attr_Source = None, Attr_Request = None\<rparr>\<rparr>) s)
           = Inr False
       \<and> (\<exists>st. fst (Check getContainerFromContext checkPolicies as ctx req s)
                  = (Some \<lparr>Resp_Status = Some st\<rparr>, None))"
proof -
  have a: "\<exists>b. fst (match Parse rule req s) = Inr b"
    by (simp add: match_fst [OF assms])
  have b: "parse_fails (GetPrincipal (GetSource (GetAttributes req))) \<longrightarrow>
            fst (match Parse rule req s) = Inr False"
    by (simp add: match_parse_fails [OF assms])
  have c: "\<forall>sa e. ServiceAccounts (Source rule) = Some sa \<and> Parse (Selector sa) = Inl e \<longrightarrow>
            fst (match Parse rule req s) = Inr False"
    by (simp add: match_fst [OF assms] matchPeer_fst [OF state_ok_init] split: prod.splits)
  have d: "fst (match Parse rule None s) = Inr False"
    using parse_fails_empty
    by (intro match_parse_fails [OF assms]) (simp add: GetAttributes_def GetSource_def GetPrincipal_def)
  have e: "fst (match Parse rule (Some \<lparr>Attributes = None\<rparr>) s) = Inr False"
    using parse_fails_empty
    by (intro match_parse_fails [OF assms]) (simp add: GetAttributes_def GetSource_def GetPrincipal_def)
  have f: "fst (match Parse rule (Some \<lparr>Attributes = Some \<lparr>Attr_Source = None, Attr_Request = None\<rparr>\<rparr>) s)
           = Inr False"
    using parse_fails_empty
    by (intro match_parse_fails [OF assms]) (simp add: GetAttributes_def GetSource_def GetPrincipal_def)
  have g: "\<exists>st. fst (Check getContainerFromContext checkPolicies as ctx req s)
                  = (Some \<lparr>Resp_Status = Some st\<rparr>, None)"
    by (simp add: Check_def Let_def split: sum.splits prod.splits)
  from a b c d e f g show ?thesis by blast
qed

theorem never_panics_witness:
  "state_ok init_state
   \<and> parse_fails (GetPrincipal (GetSource (GetAttributes (example_request ''not-a-spiffe-id''))))
   \<and> fst (match example_Parse example_rule (example_request ''not-a-spiffe-id'') init_state)
       = Inr False
   \<and> ServiceAccounts (Source selective_rule) = Some \<lparr>Names = [''bar''], Selector = ''((''\<rparr>
   \<and> example_Parse ''(('' = Inl (Errorf ''unexpected token'')
   \<and> fst (match example_Parse selective_rule
            (example_request ''spiffe://cluster.local/ns/foo/sa/bar'') init_state) = Inr False
   \<and> fst (match example_Parse selective_rule None init_state) = Inr False
   \<and> fst (Check example_getContainer example_checkPolicies example_server [] None init_state)
       = (Some \<lparr>Resp_Status = Some \<lparr>Code = 13\<rparr>\<rparr>, None)"
proof -
  have ok: "state_ok init_state"
    by (simp add: state_ok_def init_state_def)
  have g: "GetPrincipal (GetSource (GetAttributes (example_request ident))) = ident" for ident
    by (simp add: example_request_def GetAttributes_def GetSource_def GetPrincipal_def)
  have p: "parse_fails ''not-a-spiffe-id''"
    by code_simp
  have r: "ServiceAccounts (Source selective_rule) = Some \<lparr>Names = [''bar''], Selector = ''((''\<rparr>"
    by (simp add: selective_rule_def)
  have e: "example_Parse ''(('' = Inl (Errorf ''unexpected token'')"
    by (simp add: example_Parse_def)
  have c: "fst (Check example_getContainer example_checkPolicies example_server [] None init_state)
       = (Some \<lparr>Resp_Status = Some \<lparr>Code = 13\<rparr>\<rparr>, None)"
    by (simp add: Check_def Let_def example_getContainer_def Code_value_at_def Code_value_def)
  show ?thesis
    using ok p g r e c
      never_panics [OF ok, where Parse = example_Parse and rule = example_rule
        and req = "example_request ''not-a-spiffe-id''"
        and getContainerFromContext = example_getContainer
        and checkPolicies = example_checkPolicies and as = example_server and ctx = "[]"]
      never_panics [OF ok, where Parse = example_Parse and rule = selective_rule
        and req = "example_request ''spiffe://cluster.local/ns/foo/sa/bar''"
        and getContainerFromContext = example_getContainer
        and checkPolicies = example_checkPolicies and as = example_server and ctx = "[]"]
    by simp
qed

text \<open>
  C10. \<open>Check\<close> always returns a response with a status, and never an error. The status
  is \<open>INTERNAL\<close> (code 13) when the container cannot be determined and when the policy
  fetch fails; otherwise it is the status that \<open>checkPolicies\<close> computes. A failed
  endpoint lookup is logged and changes neither the shape of the result nor the returned
  error.
\<close>

theorem Check_always_responds:
  "\<exists>st. fst (Check getContainerFromContext checkPolicies as ctx req s)
            = (Some \<lparr>Resp_Status = Some st\<rparr>, None)
        \<and> st = (case getContainerFromContext ctx of
                  Inl e \<Rightarrow> \<lparr>Code = 13\<rparr>
                | Inr cid \<Rightarrow>
                    (case GetEndpointFromContainer (Query as) cid (NodeName as) of
                       (name, namespace, err) \<Rightarrow>
                         (case GetPolicies (Query as) name namespace of
                            Inl e \<Rightarrow> \<lparr>Code = 13\<rparr>
                          | Inr policies \<Rightarrow>
                              fst (checkPolicies policies req (after_lookup err s)))))"
  by (simp add: Check_def Let_def Code_value_INTERNAL after_lookup_def
      split: sum.splits prod.splits)

end
